theory Spec2Isabelle
  imports Complex_Main
begin

section \<open>Data of the TicTacToe class (script.js)\<close>

text \<open>
  The two player symbols are the strings \<open>'X'\<close> and \<open>'O'\<close> (\<open>MarkX\<close>, \<open>MarkO\<close>); a board cell is one of the
  strings \<open>''\<close>, \<open>'X'\<close>, \<open>'O'\<close>. The board is a JavaScript array: reading an index
  that is not an element gives \<open>undefined\<close>, and writing beyond the end extends the
  array, leaving holes. An array slot is therefore a \<open>cell option\<close>, with \<open>None\<close> for a
  hole, and a read returns \<open>None\<close> for \<open>undefined\<close>.
\<close>

datatype mark = MarkX | MarkO

datatype cell = Blank | Filled mark

type_synonym board = "cell option list"

datatype gmode = PvP | AI

datatype difficulty = Easy | Medium | Hard

text \<open>The result of \<open>parseInt\<close>: a whole number, or \<open>NaN\<close>.\<close>

datatype jsnum = NaN | Num int

text \<open>
  A counter of \<open>this.scores\<close> is a JavaScript number, a double. It starts as
  \<open>parseInt(...) || 0\<close> of a stored string and is only ever incremented or set to 0, so
  it is a whole number that a double can hold, or an infinity (\<open>parseInt\<close> of a very long
  string of digits).
\<close>

datatype counter = Whole int | Infinity | MinusInfinity

text \<open>
  The three counters of \<open>this.scores\<close> (keys \<open>X\<close>, \<open>O\<close>, \<open>draw\<close>; stored under
  \<open>scoreX\<close>, \<open>scoreO\<close>, \<open>scoreDraw\<close>).
\<close>

record scores =
  scoreX :: counter
  scoreO :: counter
  scoreDraw :: counter

record game =
  board :: board
  currentPlayer :: mark
  gameActive :: bool
  gameMode :: gmode
  aiDifficulty :: difficulty
  scores :: scores

text \<open>The object returned by \<open>checkGameEnd\<close>, and the argument of \<open>updateScore\<close>.\<close>

datatype result = Win mark "nat \<times> nat \<times> nat" | Draw

datatype winner = Player mark | DrawGame

text \<open>The early return of \<open>handleCellClick\<close>: the click is ignored.\<close>

datatype error = InvalidMove

text \<open>A value of \<open>Math.random()\<close>: a number \<open>r\<close> with \<open>0 \<le> r < 1\<close>.\<close>

typedef rnd = "{r :: real. 0 \<le> r \<and> r < 1}"
  by (rule exI [of _ 0]) simp

section \<open>Array access\<close>

definition cellAt :: "board \<Rightarrow> nat \<Rightarrow> cell option" where
  "cellAt bd i = (if i < length bd then bd ! i else None)"

fun cellAtNum :: "board \<Rightarrow> jsnum \<Rightarrow> cell option" where
  "cellAtNum bd NaN = None"
| "cellAtNum bd (Num i) = (if 0 \<le> i then cellAt bd (nat i) else None)"

definition setCell :: "board \<Rightarrow> nat \<Rightarrow> cell \<Rightarrow> board" where
  "setCell bd i v =
     (if i < length bd then bd[i := Some v]
      else bd @ replicate (i - length bd) None @ [Some v])"

definition emptyBoard :: board where
  "emptyBoard = replicate 9 (Some Blank)"

section \<open>Numbers\<close>

text \<open>\<open>bits n\<close> is the number of binary digits of \<open>n\<close>.\<close>

fun bits :: "nat \<Rightarrow> nat" where
  "bits n = (if n = 0 then 0 else Suc (bits (n div 2)))"

declare bits.simps [simp del]

text \<open>
  The double nearest to a whole number \<open>y\<close>: \<open>y\<close> itself when its magnitude is below
  \<open>2^53\<close>; otherwise the magnitude is rounded to 53 significant binary digits, a tie
  going to the even one, and a result of \<open>2^1024\<close> or more is infinite.
\<close>

definition toDouble :: "int \<Rightarrow> counter" where
  "toDouble y =
     (if abs y < 2 ^ 53 then Whole y
      else (let u = 2 ^ (bits (nat (abs y)) - 53);
                q = abs y div u;
                r = abs y mod u;
                m = (if 2 * r < u \<or> (2 * r = u \<and> even q) then q * u else (q + 1) * u)
            in if 2 ^ 1024 \<le> m then (if y < 0 then MinusInfinity else Infinity)
               else Whole (if y < 0 then - m else m)))"

text \<open>The operator \<open>++\<close> on a counter: the double nearest to the sum with 1.\<close>

fun increment :: "counter \<Rightarrow> counter" where
  "increment (Whole n) = toDouble (n + 1)"
| "increment Infinity = Infinity"
| "increment MinusInfinity = MinusInfinity"

section \<open>The game\<close>

definition winningCombinations :: "(nat \<times> nat \<times> nat) list" where
  "winningCombinations =
     [(0, 1, 2), (3, 4, 5), (6, 7, 8),
      (0, 3, 6), (1, 4, 7), (2, 5, 8),
      (0, 4, 8), (2, 4, 6)]"

text \<open>
  The constructor. \<open>sx\<close>, \<open>so\<close> and \<open>sd\<close> are the whole numbers that \<open>parseInt\<close> reads
  from the three stored strings, 0 where it reads none (\<open>NaN || 0\<close>); the counters are
  their doubles.
\<close>

definition newGame :: "int \<Rightarrow> int \<Rightarrow> int \<Rightarrow> game" where
  "newGame sx so sd =
     \<lparr>board = emptyBoard, currentPlayer = MarkX, gameActive = True, gameMode = PvP,
      aiDifficulty = Medium,
      scores = \<lparr>scoreX = toDouble sx, scoreO = toDouble so, scoreDraw = toDouble sd\<rparr>\<rparr>"

text \<open>The loop of \<open>checkGameEnd\<close> over the winning combinations.\<close>

fun checkWin :: "board \<Rightarrow> (nat \<times> nat \<times> nat) list \<Rightarrow> result option" where
  "checkWin bd [] = None"
| "checkWin bd ((a, b, c) # rest) =
     (case cellAt bd a of
        Some (Filled p) \<Rightarrow>
          (if cellAt bd b = Some (Filled p) \<and> cellAt bd c = Some (Filled p)
           then Some (Win p (a, b, c))
           else checkWin bd rest)
      | _ \<Rightarrow> checkWin bd rest)"

definition checkGameEnd :: "board \<Rightarrow> result option" where
  "checkGameEnd bd =
     (case checkWin bd winningCombinations of
        Some r \<Rightarrow> Some r
      | None \<Rightarrow> if list_all (\<lambda>c. c \<noteq> Some Blank) bd then Some Draw else None)"

fun updateScore :: "winner \<Rightarrow> game \<Rightarrow> game" where
  "updateScore DrawGame g =
     g\<lparr>scores := (scores g)\<lparr>scoreDraw := increment (scoreDraw (scores g))\<rparr>\<rparr>"
| "updateScore (Player MarkX) g =
     g\<lparr>scores := (scores g)\<lparr>scoreX := increment (scoreX (scores g))\<rparr>\<rparr>"
| "updateScore (Player MarkO) g =
     g\<lparr>scores := (scores g)\<lparr>scoreO := increment (scoreO (scores g))\<rparr>\<rparr>"

fun endGame :: "result \<Rightarrow> game \<Rightarrow> game" where
  "endGame (Win p comb) g = updateScore (Player p) (g\<lparr>gameActive := False\<rparr>)"
| "endGame Draw g = updateScore DrawGame (g\<lparr>gameActive := False\<rparr>)"

text \<open>
  \<open>makeMove\<close> writes the cell, looks for the end of the game and either ends it or passes
  the turn. The calls that only change the display (\<open>updateCellDisplay\<close> and the like) are
  left out: the document is taken to hold its nine cells, so that they succeed.
\<close>

fun other :: "mark \<Rightarrow> mark" where
  "other MarkX = MarkO"
| "other MarkO = MarkX"

definition makeMove :: "nat \<Rightarrow> mark \<Rightarrow> game \<Rightarrow> game" where
  "makeMove index player g =
     (let g1 = g\<lparr>board := setCell (board g) index (Filled player)\<rparr>
      in case checkGameEnd (board g1) of
           Some r \<Rightarrow> endGame r g1
         | None \<Rightarrow> g1\<lparr>currentPlayer := other (currentPlayer g1)\<rparr>)"

text \<open>
  \<open>handleCellClick\<close> takes the parsed \<open>data-index\<close> of the clicked element. Its early
  return is \<open>Inl InvalidMove\<close>; otherwise it returns the new game and whether it has
  scheduled \<open>makeAIMove\<close> with \<open>setTimeout\<close>. Past the guard the index is a whole number,
  so the \<open>NaN\<close> case of the inner distinction is never reached.
\<close>

definition handleCellClick :: "jsnum \<Rightarrow> game \<Rightarrow> error + game \<times> bool" where
  "handleCellClick index g =
     (if \<not> gameActive g \<or> cellAtNum (board g) index \<noteq> Some Blank
      then Inl InvalidMove
      else (case index of
              NaN \<Rightarrow> Inl InvalidMove
            | Num i \<Rightarrow>
                (let g1 = makeMove (nat i) (currentPlayer g) g
                 in Inr (g1, gameActive g1 \<and> gameMode g1 = AI \<and> currentPlayer g1 = MarkO))))"

definition resetGame :: "game \<Rightarrow> game" where
  "resetGame g = g\<lparr>board := emptyBoard, currentPlayer := MarkX, gameActive := True\<rparr>"

definition setGameMode :: "gmode \<Rightarrow> game \<Rightarrow> game" where
  "setGameMode m g = resetGame (g\<lparr>gameMode := m\<rparr>)"

definition playAgain :: "game \<Rightarrow> game" where
  "playAgain g = resetGame g"

definition resetScores :: "game \<Rightarrow> game" where
  "resetScores g = g\<lparr>scores := \<lparr>scoreX = Whole 0, scoreO = Whole 0, scoreDraw = Whole 0\<rparr>\<rparr>"

section \<open>The computer player\<close>

definition availableMoves :: "board \<Rightarrow> nat list" where
  "availableMoves bd = filter (\<lambda>i. bd ! i = Some Blank) [0 ..< length bd]"

definition getRandomMove :: "rnd \<Rightarrow> board \<Rightarrow> int" where
  "getRandomMove r bd =
     (let av = availableMoves bd
      in if length av > 0
         then int (av ! nat \<lfloor>Rep_rnd r * real (length av)\<rfloor>)
         else - 1)"

text \<open>
  The first two loops of \<open>getStrategicMove\<close> are the same loop, once for \<open>'O'\<close> and
  once for \<open>'X'\<close>.
\<close>

fun scanLines :: "mark \<Rightarrow> board \<Rightarrow> (nat \<times> nat \<times> nat) list \<Rightarrow> nat option" where
  "scanLines m bd [] = None"
| "scanLines m bd ((a, b, c) # rest) =
     (if cellAt bd a = Some (Filled m) \<and> cellAt bd b = Some (Filled m) \<and> cellAt bd c = Some Blank
      then Some c
      else if cellAt bd a = Some (Filled m) \<and> cellAt bd c = Some (Filled m) \<and> cellAt bd b = Some Blank
      then Some b
      else if cellAt bd b = Some (Filled m) \<and> cellAt bd c = Some (Filled m) \<and> cellAt bd a = Some Blank
      then Some a
      else scanLines m bd rest)"

text \<open>The loops over the corners and over the sides.\<close>

fun firstEmpty :: "board \<Rightarrow> nat list \<Rightarrow> nat option" where
  "firstEmpty bd [] = None"
| "firstEmpty bd (i # rest) =
     (if cellAt bd i = Some Blank then Some i else firstEmpty bd rest)"

definition corners :: "nat list" where
  "corners = [0, 2, 6, 8]"

definition sides :: "nat list" where
  "sides = [1, 3, 5, 7]"

definition getStrategicMove :: "rnd \<Rightarrow> board \<Rightarrow> int" where
  "getStrategicMove r bd =
     (case scanLines MarkO bd winningCombinations of
        Some i \<Rightarrow> int i
      | None \<Rightarrow>
     (case scanLines MarkX bd winningCombinations of
        Some i \<Rightarrow> int i
      | None \<Rightarrow>
     (if cellAt bd 4 = Some Blank then 4
      else
     (case firstEmpty bd corners of
        Some i \<Rightarrow> int i
      | None \<Rightarrow>
     (case firstEmpty bd sides of
        Some i \<Rightarrow> int i
      | None \<Rightarrow> getRandomMove r bd)))))"

definition getHardMove :: "rnd \<Rightarrow> board \<Rightarrow> int" where
  "getHardMove r bd = getStrategicMove r bd"

text \<open>\<open>coin\<close> is the value of the first \<open>Math.random()\<close>, \<open>r\<close> of the next one.\<close>

definition getMediumMove :: "rnd \<Rightarrow> rnd \<Rightarrow> board \<Rightarrow> int" where
  "getMediumMove coin r bd =
     (if Rep_rnd coin < 7 / 10 then getStrategicMove r bd else getRandomMove r bd)"

definition chooseMove :: "rnd \<Rightarrow> rnd \<Rightarrow> game \<Rightarrow> int" where
  "chooseMove coin r g =
     (case aiDifficulty g of
        Easy \<Rightarrow> getRandomMove r (board g)
      | Medium \<Rightarrow> getMediumMove coin r (board g)
      | Hard \<Rightarrow> getHardMove r (board g))"

text \<open>
  \<open>makeAIMove\<close> gives \<open>None\<close> when it makes no move (the game is over, or the chosen
  move is \<open>-1\<close>): the game is then as it was.
\<close>

definition makeAIMove :: "rnd \<Rightarrow> rnd \<Rightarrow> game \<Rightarrow> game option" where
  "makeAIMove coin r g =
     (if \<not> gameActive g then None
      else (let move = chooseMove coin r g
            in if move \<noteq> - 1 then Some (makeMove (nat move) MarkO g) else None))"

section \<open>The page: events and pending timers\<close>

text \<open>
  Everything runs in event handlers, one at a time. The page holds the game object, the
  number of \<open>makeAIMove\<close> calls scheduled with \<open>setTimeout\<close> that have not run yet, and
  (for the statements only) the number of \<open>makeMove\<close> calls since the last \<open>resetGame\<close>.
\<close>

record page =
  app :: game
  aiTimers :: nat
  movesApplied :: nat

datatype event =
    CellClick jsnum
  | AITimeout rnd rnd
  | ResetGameClick
  | PlayAgainClick
  | ModeClick gmode
  | DifficultyChange "difficulty option"
  | ResetScoresClick

definition newPage :: "int \<Rightarrow> int \<Rightarrow> int \<Rightarrow> page" where
  "newPage sx so sd = \<lparr>app = newGame sx so sd, aiTimers = 0, movesApplied = 0\<rparr>"

fun dispatch :: "event \<Rightarrow> page \<Rightarrow> page" where
  "dispatch (CellClick index) p =
     (case handleCellClick index (app p) of
        Inl e \<Rightarrow> p
      | Inr (g, scheduled) \<Rightarrow>
          p\<lparr>app := g,
            aiTimers := aiTimers p + (if scheduled then 1 else 0),
            movesApplied := movesApplied p + 1\<rparr>)"
| "dispatch (AITimeout coin r) p =
     (if aiTimers p = 0 then p
      else (case makeAIMove coin r (app p) of
              None \<Rightarrow> p\<lparr>aiTimers := aiTimers p - 1\<rparr>
            | Some g \<Rightarrow>
                p\<lparr>app := g, aiTimers := aiTimers p - 1,
                  movesApplied := movesApplied p + 1\<rparr>))"
| "dispatch ResetGameClick p = p\<lparr>app := resetGame (app p), movesApplied := 0\<rparr>"
| "dispatch PlayAgainClick p = p\<lparr>app := playAgain (app p), movesApplied := 0\<rparr>"
| "dispatch (ModeClick m) p = p\<lparr>app := setGameMode m (app p), movesApplied := 0\<rparr>"
| "dispatch (DifficultyChange None) p = p"
| "dispatch (DifficultyChange (Some d)) p = p\<lparr>app := (app p)\<lparr>aiDifficulty := d\<rparr>\<rparr>"
| "dispatch ResetScoresClick p = p\<lparr>app := resetScores (app p)\<rparr>"

fun run :: "event list \<Rightarrow> page \<Rightarrow> page" where
  "run [] p = p"
| "run (e # es) p = run es (dispatch e p)"

section \<open>The termination rule and the priority order, as the specification words them\<close>

text \<open>
  The eight winning lines in three groups, and the status a board has: a line wins when
  its three cells are filled and equal; the first winning line, looking at the rows, then
  the columns, then the diagonals, decides; a board with no winning line is drawn when it
  has no empty cell and in progress otherwise.
\<close>

definition rows :: "(nat \<times> nat \<times> nat) list" where
  "rows = [(0, 1, 2), (3, 4, 5), (6, 7, 8)]"

definition columns :: "(nat \<times> nat \<times> nat) list" where
  "columns = [(0, 3, 6), (1, 4, 7), (2, 5, 8)]"

definition diagonals :: "(nat \<times> nat \<times> nat) list" where
  "diagonals = [(0, 4, 8), (2, 4, 6)]"

datatype status = InProgress | Won mark "nat \<times> nat \<times> nat" | Drawn

fun isFilled :: "cell option \<Rightarrow> bool" where
  "isFilled (Some (Filled p)) = True"
| "isFilled c = False"

fun lineWins :: "board \<Rightarrow> nat \<times> nat \<times> nat \<Rightarrow> bool" where
  "lineWins bd (a, b, c) =
     (isFilled (cellAt bd a) \<and> isFilled (cellAt bd b) \<and> isFilled (cellAt bd c)
      \<and> cellAt bd a = cellAt bd b \<and> cellAt bd b = cellAt bd c)"

fun wonBy :: "board \<Rightarrow> nat \<times> nat \<times> nat \<Rightarrow> status" where
  "wonBy bd (a, b, c) =
     (case cellAt bd a of Some (Filled p) \<Rightarrow> Won p (a, b, c) | _ \<Rightarrow> InProgress)"

definition evaluateTermination :: "board \<Rightarrow> status" where
  "evaluateTermination bd =
     (case find (lineWins bd) (rows @ columns @ diagonals) of
        Some line \<Rightarrow> wonBy bd line
      | None \<Rightarrow> if Some Blank \<in> set bd then InProgress else Drawn)"

fun statusOf :: "result option \<Rightarrow> status" where
  "statusOf None = InProgress"
| "statusOf (Some (Win p line)) = Won p line"
| "statusOf (Some Draw) = Drawn"

text \<open>
  The priority order of the strategic move. A line gives three patterns, two cells and a
  gap: the gap is the third cell, then the second, then the first. The move is the gap of
  the first pattern, over the lines in their order, whose two cells hold O and whose gap is
  empty; else the same for X; else the centre; else the first empty corner of 0, 2, 6, 8;
  else the first empty edge of 1, 3, 5, 7; else there is none.
\<close>

fun patterns :: "nat \<times> nat \<times> nat \<Rightarrow> ((nat \<times> nat) \<times> nat) list" where
  "patterns (a, b, c) = [((a, b), c), ((a, c), b), ((b, c), a)]"

fun completes :: "mark \<Rightarrow> board \<Rightarrow> (nat \<times> nat) \<times> nat \<Rightarrow> bool" where
  "completes m bd ((p, q), gap) =
     (cellAt bd p = Some (Filled m) \<and> cellAt bd q = Some (Filled m)
      \<and> cellAt bd gap = Some Blank)"

definition twoInLine :: "mark \<Rightarrow> board \<Rightarrow> nat option" where
  "twoInLine m bd =
     map_option snd
       (find (completes m bd) (concat (map patterns (rows @ columns @ diagonals))))"

definition isEmpty :: "board \<Rightarrow> nat \<Rightarrow> bool" where
  "isEmpty bd i = (cellAt bd i = Some Blank)"

definition priorityMove :: "board \<Rightarrow> nat option" where
  "priorityMove bd =
     (case twoInLine MarkO bd of
        Some i \<Rightarrow> Some i
      | None \<Rightarrow>
     (case twoInLine MarkX bd of
        Some i \<Rightarrow> Some i
      | None \<Rightarrow>
     (if isEmpty bd 4 then Some 4
      else
     (case find (isEmpty bd) [0, 2, 6, 8] of
        Some i \<Rightarrow> Some i
      | None \<Rightarrow> find (isEmpty bd) [1, 3, 5, 7]))))"

section \<open>Notions used in the statements\<close>



definition filledCells :: "board \<Rightarrow> nat" where
  "filledCells bd = length (filter isFilled bd)"

text \<open>
  The events of one game: everything but the resets. \<open>outcomeCounter\<close> is the counter
  of an outcome, \<open>bump\<close> applies \<open>++\<close> to it, and \<open>tally\<close> adds one to it. A counter is
  \<open>exact\<close> when it is a whole number of magnitude below \<open>2^53\<close>.
\<close>

fun isPlay :: "event \<Rightarrow> bool" where
  "isPlay (CellClick index) = True"
| "isPlay (AITimeout coin r) = True"
| "isPlay (DifficultyChange d) = True"
| "isPlay e = False"

fun outcomeCounter :: "result \<Rightarrow> scores \<Rightarrow> counter" where
  "outcomeCounter (Win MarkX line) s = scoreX s"
| "outcomeCounter (Win MarkO line) s = scoreO s"
| "outcomeCounter Draw s = scoreDraw s"

fun bump :: "result \<Rightarrow> scores \<Rightarrow> scores" where
  "bump (Win MarkX line) s = s\<lparr>scoreX := increment (scoreX s)\<rparr>"
| "bump (Win MarkO line) s = s\<lparr>scoreO := increment (scoreO s)\<rparr>"
| "bump Draw s = s\<lparr>scoreDraw := increment (scoreDraw s)\<rparr>"

fun plusOne :: "counter \<Rightarrow> counter" where
  "plusOne (Whole n) = Whole (n + 1)"
| "plusOne Infinity = Infinity"
| "plusOne MinusInfinity = MinusInfinity"

fun tally :: "result \<Rightarrow> scores \<Rightarrow> scores" where
  "tally (Win MarkX line) s = s\<lparr>scoreX := plusOne (scoreX s)\<rparr>"
| "tally (Win MarkO line) s = s\<lparr>scoreO := plusOne (scoreO s)\<rparr>"
| "tally Draw s = s\<lparr>scoreDraw := plusOne (scoreDraw s)\<rparr>"

fun exact :: "counter \<Rightarrow> bool" where
  "exact (Whole n) = (abs n < 2 ^ 53)"
| "exact c = False"

text \<open>
  \<open>moved p p'\<close>: the event that led from \<open>p\<close> to \<open>p'\<close> called \<open>makeMove\<close>, on an empty
  cell of an active game. \<open>turnInvariant\<close> ties the board and the turn to the number of
  moves.
\<close>

definition moved :: "page \<Rightarrow> page \<Rightarrow> bool" where
  "moved p p' \<longleftrightarrow>
     (\<exists>k m. cellAt (board (app p)) k = Some Blank \<and> gameActive (app p)
        \<and> app p' = makeMove k m (app p) \<and> movesApplied p' = movesApplied p + 1)"

definition turnInvariant :: "page \<Rightarrow> bool" where
  "turnInvariant p \<longleftrightarrow>
     filledCells (board (app p)) = movesApplied p
     \<and> (gameActive (app p) \<longrightarrow> (currentPlayer (app p) = MarkX) = even (movesApplied p))"

section \<open>Boards and event sequences used as examples\<close>

text \<open>
  \<open>boardBlock\<close>: X on 0 and 1, O on 4. \<open>boardFull\<close>: a full board. \<open>xWinsTrace\<close>: two
  players click 0, 3, 1, 4, 2 (X completes the top row) and then 5. \<open>threeMoves\<close>: the
  first three of these clicks. \<open>resetRace\<close>: against the computer at hard difficulty,
  X clicks cell 0 and the game is reset before the scheduled \<open>makeAIMove\<close> runs.
\<close>

definition boardBlock :: board where
  "boardBlock = [Some (Filled MarkX), Some (Filled MarkX), Some Blank,
                 Some Blank, Some (Filled MarkO), Some Blank,
                 Some Blank, Some Blank, Some Blank]"

definition boardFull :: board where
  "boardFull = [Some (Filled MarkX), Some (Filled MarkO), Some (Filled MarkX),
                Some (Filled MarkX), Some (Filled MarkO), Some (Filled MarkO),
                Some (Filled MarkO), Some (Filled MarkX), Some (Filled MarkX)]"

definition xWinsTrace :: "event list" where
  "xWinsTrace = [CellClick (Num 0), CellClick (Num 3), CellClick (Num 1),
                 CellClick (Num 4), CellClick (Num 2), CellClick (Num 5)]"

definition threeMoves :: "event list" where
  "threeMoves = [CellClick (Num 0), CellClick (Num 3), CellClick (Num 1)]"

definition resetRace :: "event list" where
  "resetRace = [ModeClick AI, DifficultyChange (Some Hard), CellClick (Num 0), ResetGameClick]"

section \<open>Counters\<close>

lemma toDouble_exact: "abs y < 2 ^ 53 \<Longrightarrow> toDouble y = Whole y"
  by (simp add: toDouble_def)

lemma toDouble_zero: "toDouble 0 = Whole 0"
  by (simp add: toDouble_exact)

lemma bits_limit: "bits 9007199254740992 = 54"
  by (simp add: bits.simps)

lemma bits_above_limit: "bits 9007199254740993 = 54"
  by (simp add: bits.simps)

lemma toDouble_limit: "toDouble 9007199254740992 = Whole 9007199254740992"
  by (simp add: toDouble_def bits_limit)

lemma toDouble_above_limit: "toDouble 9007199254740993 = Whole 9007199254740992"
  by (simp add: toDouble_def bits_above_limit)

lemma increment_exact:
  assumes "exact c"
  shows "increment c = plusOne c"
proof -
  from assms obtain n where c: "c = Whole n" and n: "abs n < 2 ^ 53"
    by (cases c) simp_all
  show ?thesis
  proof (cases "abs (n + 1) < 2 ^ 53")
    case True
    then show ?thesis by (simp add: c toDouble_exact)
  next
    case False
    with n have "n + 1 = 9007199254740992" by simp
    then show ?thesis using toDouble_limit by (simp add: c)
  qed
qed

lemma bump_exact:
  assumes "exact (outcomeCounter res s)"
  shows "bump res s = tally res s"
proof (cases res)
  case (Win m line)
  with assms show ?thesis by (cases m) (simp_all add: increment_exact)
next
  case Draw
  with assms show ?thesis by (simp add: increment_exact)
qed

section \<open>Reading and writing cells\<close>

lemma cellAt_Some_less: "cellAt bd i = Some c \<Longrightarrow> i < length bd"
  by (simp add: cellAt_def split: if_splits)

lemma blank_cellAt: "Some Blank \<in> set bd \<longleftrightarrow> (\<exists>i. cellAt bd i = Some Blank)"
  by (auto simp: cellAt_def in_set_conv_nth)

lemma every_not_blank: "list_all (\<lambda>c. c \<noteq> Some Blank) bd \<longleftrightarrow> Some Blank \<notin> set bd"
  by (induction bd) auto

lemma isFilled_iff: "isFilled c \<longleftrightarrow> (\<exists>p. c = Some (Filled p))"
  by (cases c rule: isFilled.cases) auto

lemma emptyBoard_cells:
  "emptyBoard = [Some Blank, Some Blank, Some Blank,
                 Some Blank, Some Blank, Some Blank,
                 Some Blank, Some Blank, Some Blank]"
  by (simp add: emptyBoard_def numeral_eq_Suc)

lemma cellAtNum_Some:
  "cellAtNum bd index = Some c \<Longrightarrow> \<exists>i. index = Num i \<and> 0 \<le> i \<and> cellAt bd (nat i) = Some c"
  by (cases index) (auto split: if_splits)



lemma filter_update_blank:
  assumes "i < length bd" and "\<not> isFilled (bd ! i)" and "isFilled v"
  shows "length (filter isFilled (bd[i := v])) = Suc (length (filter isFilled bd))"
proof -
  have u: "bd[i := v] = take i bd @ v # drop (Suc i) bd"
    using assms(1) by (rule upd_conv_take_nth_drop)
  have o: "bd = take i bd @ bd ! i # drop (Suc i) bd"
    using assms(1) by (rule id_take_nth_drop)
  have "length (filter isFilled bd) =
      length (filter isFilled (take i bd)) + length (filter isFilled (drop (Suc i) bd))"
    by (subst o) (simp add: assms(2))
  moreover have "length (filter isFilled (bd[i := v])) =
      Suc (length (filter isFilled (take i bd)) + length (filter isFilled (drop (Suc i) bd)))"
    unfolding u by (simp add: assms(3))
  ultimately show ?thesis by simp
qed

lemma filledCells_setCell:
  assumes "cellAt bd i = Some Blank"
  shows "filledCells (setCell bd i (Filled m)) = filledCells bd + 1"
proof -
  from assms have i: "i < length bd" by (rule cellAt_Some_less)
  with assms have "bd ! i = Some Blank" by (simp add: cellAt_def)
  then have "\<not> isFilled (bd ! i)" by simp
  with i show ?thesis
    by (simp add: filledCells_def setCell_def filter_update_blank)
qed

lemma filledCells_emptyBoard: "filledCells emptyBoard = 0"
  by (simp add: filledCells_def emptyBoard_def)

section \<open>Reset\<close>

text \<open>
  C7. Whatever the game was (won, drawn or in progress), \<open>resetGame\<close> gives nine empty
  cells, player X to move and an active game, and the three counters are as before.
\<close>

theorem resetGame_initial:
  "board (resetGame g) = [Some Blank, Some Blank, Some Blank,
                          Some Blank, Some Blank, Some Blank,
                          Some Blank, Some Blank, Some Blank]
   \<and> currentPlayer (resetGame g) = MarkX
   \<and> gameActive (resetGame g) = True
   \<and> scores (resetGame g) = scores g"
  by (simp add: resetGame_def emptyBoard_def numeral_eq_Suc)

section \<open>The end of a game\<close>

lemma lineWins_iff:
  "lineWins bd (a, b, c) \<longleftrightarrow>
     (\<exists>p. cellAt bd a = Some (Filled p) \<and> cellAt bd b = Some (Filled p)
          \<and> cellAt bd c = Some (Filled p))"
  by (auto simp: isFilled_iff)

lemma checkWin_step:
  "checkWin bd ((a, b, c) # ls) =
     (if lineWins bd (a, b, c)
      then (case cellAt bd a of Some (Filled p) \<Rightarrow> Some (Win p (a, b, c)) | _ \<Rightarrow> None)
      else checkWin bd ls)"
proof (cases "lineWins bd (a, b, c)")
  case True
  then obtain p where "cellAt bd a = Some (Filled p)" "cellAt bd b = Some (Filled p)"
    "cellAt bd c = Some (Filled p)"
    unfolding lineWins_iff by blast
  with True show ?thesis by simp
next
  case False
  then have "\<And>p. cellAt bd a = Some (Filled p) \<Longrightarrow>
      \<not> (cellAt bd b = Some (Filled p) \<and> cellAt bd c = Some (Filled p))"
    unfolding lineWins_iff by blast
  with False show ?thesis
    by (auto simp del: lineWins.simps split: option.split cell.split)
qed

lemma checkWin_find:
  "checkWin bd ls =
     (case find (lineWins bd) ls of
        None \<Rightarrow> None
      | Some (a, b, c) \<Rightarrow>
          (case cellAt bd a of Some (Filled p) \<Rightarrow> Some (Win p (a, b, c)) | _ \<Rightarrow> None))"
proof (induction ls)
  case Nil
  show ?case by simp
next
  case (Cons l ls)
  obtain a b c where l: "l = (a, b, c)" by (cases l) auto
  show ?case
    unfolding l checkWin_step using Cons.IH by (simp del: lineWins.simps)
qed

lemma find_lineWins_filled:
  assumes "find (lineWins bd) ls = Some (a, b, c)"
  shows "\<exists>p. cellAt bd a = Some (Filled p)"
proof -
  from assms have "lineWins bd (a, b, c)"
    by (metis find_Some_iff)
  then show ?thesis unfolding lineWins_iff by blast
qed

lemma lines_order: "winningCombinations = rows @ columns @ diagonals"
  by (simp add: winningCombinations_def rows_def columns_def diagonals_def)

text \<open>
  C3. \<open>checkGameEnd\<close> gives the status of the specification's termination rule: won by
  the mark of the first winning line in the order rows, columns, diagonals, with that
  line; drawn when no line wins and no cell is empty; no result (in progress) otherwise.
\<close>

theorem checkGameEnd_evaluateTermination:
  "statusOf (checkGameEnd bd) = evaluateTermination bd"
proof (cases "find (lineWins bd) (rows @ columns @ diagonals)")
  case None
  then show ?thesis
    by (simp add: checkGameEnd_def evaluateTermination_def checkWin_find
        lines_order every_not_blank del: lineWins.simps)
next
  case (Some line)
  obtain a b c where l: "line = (a, b, c)" by (cases line) auto
  from Some l obtain p where "cellAt bd a = Some (Filled p)"
    by (auto dest: find_lineWins_filled)
  with Some l show ?thesis
    by (simp add: checkGameEnd_def evaluateTermination_def checkWin_find
        lines_order del: lineWins.simps)
qed

section \<open>The strategic move\<close>

lemma scanLines_patterns:
  "scanLines m bd ls = map_option snd (find (completes m bd) (concat (map patterns ls)))"
proof (induction ls)
  case Nil
  show ?case by simp
next
  case (Cons l ls)
  obtain a b c where l: "l = (a, b, c)" by (cases l) auto
  show ?case unfolding l using Cons.IH by simp
qed

lemma scanLines_blank: "scanLines m bd ls = Some k \<Longrightarrow> cellAt bd k = Some Blank"
proof (induction ls)
  case Nil
  then show ?case by simp
next
  case (Cons l ls)
  obtain a b c where l: "l = (a, b, c)" by (cases l) auto
  from Cons show ?case unfolding l by (auto split: if_splits)
qed

lemma firstEmpty_find: "firstEmpty bd is = find (isEmpty bd) is"
  by (induction "is") (simp_all add: isEmpty_def)

lemma firstEmpty_blank: "firstEmpty bd is = Some k \<Longrightarrow> cellAt bd k = Some Blank"
  by (induction "is") (auto split: if_splits)

lemma firstEmpty_None: "firstEmpty bd is = None \<Longrightarrow> i \<in> set is \<Longrightarrow> cellAt bd i \<noteq> Some Blank"
  by (induction "is") (auto split: if_splits)

lemma set_availableMoves:
  "set (availableMoves bd) = {i. cellAt bd i = Some Blank}"
  by (auto simp: availableMoves_def cellAt_def)

lemma availableMoves_Nil: "availableMoves bd = [] \<longleftrightarrow> Some Blank \<notin> set bd"
proof -
  have "availableMoves bd = [] \<longleftrightarrow> set (availableMoves bd) = {}" by simp
  also have "\<dots> \<longleftrightarrow> (\<forall>i. cellAt bd i \<noteq> Some Blank)"
    unfolding set_availableMoves by blast
  also have "\<dots> \<longleftrightarrow> Some Blank \<notin> set bd"
    by (auto simp: cellAt_def in_set_conv_nth)
  finally show ?thesis .
qed

lemma getRandomMove_full: "Some Blank \<notin> set bd \<Longrightarrow> getRandomMove r bd = - 1"
  using availableMoves_Nil [of bd] by (simp add: getRandomMove_def Let_def)

lemma random_index: "0 < n \<Longrightarrow> nat \<lfloor>Rep_rnd r * real n\<rfloor> < n"
proof -
  assume n: "0 < n"
  have r: "0 \<le> Rep_rnd r" "Rep_rnd r < 1" using Rep_rnd [of r] by auto
  then have "Rep_rnd r * real n < real n" using n by simp
  then have "\<lfloor>Rep_rnd r * real n\<rfloor> < int n" by (simp add: floor_less_iff)
  moreover have "0 \<le> \<lfloor>Rep_rnd r * real n\<rfloor>" using r by simp
  ultimately show ?thesis by linarith
qed

lemma getRandomMove_blank:
  assumes "Some Blank \<in> set bd"
  shows "0 \<le> getRandomMove r bd \<and> cellAt bd (nat (getRandomMove r bd)) = Some Blank"
proof -
  let ?av = "availableMoves bd"
  from assms have ne: "0 < length ?av" using availableMoves_Nil [of bd] by simp
  let ?k = "nat \<lfloor>Rep_rnd r * real (length ?av)\<rfloor>"
  have "?k < length ?av" using ne by (rule random_index)
  then have "?av ! ?k \<in> set ?av" by simp
  then have "cellAt bd (?av ! ?k) = Some Blank" unfolding set_availableMoves by simp
  moreover have "getRandomMove r bd = int (?av ! ?k)"
    using ne by (simp add: getRandomMove_def Let_def)
  ultimately show ?thesis by simp
qed

lemma twoInLine_scanLines: "twoInLine m bd = scanLines m bd winningCombinations"
  by (simp add: twoInLine_def scanLines_patterns lines_order)

lemma twoInLine_blank: "twoInLine m bd = Some k \<Longrightarrow> cellAt bd k = Some Blank"
  unfolding twoInLine_scanLines by (rule scanLines_blank)

lemma find_isEmpty_blank: "find (isEmpty bd) is = Some k \<Longrightarrow> cellAt bd k = Some Blank"
  unfolding firstEmpty_find [symmetric] by (rule firstEmpty_blank)

lemma priorityMove_blank:
  assumes "priorityMove bd = Some k"
  shows "cellAt bd k = Some Blank"
proof -
  from assms consider "twoInLine MarkO bd = Some k" | "twoInLine MarkX bd = Some k"
    | "isEmpty bd 4" "k = 4" | "find (isEmpty bd) [0, 2, 6, 8] = Some k"
    | "find (isEmpty bd) [1, 3, 5, 7] = Some k"
    unfolding priorityMove_def
    by (cases "twoInLine MarkO bd"; cases "twoInLine MarkX bd";
        cases "find (isEmpty bd) [0, 2, 6, 8]"; cases "isEmpty bd 4";
        simp del: find.simps)
  then show ?thesis
  proof cases
    case 1
    then show ?thesis by (rule twoInLine_blank)
  next
    case 2
    then show ?thesis by (rule twoInLine_blank)
  next
    case 3
    then show ?thesis by (simp add: isEmpty_def)
  next
    case 4
    then show ?thesis by (rule find_isEmpty_blank)
  next
    case 5
    then show ?thesis by (rule find_isEmpty_blank)
  qed
qed

lemma getStrategicMove_priorityMove:
  "getStrategicMove r bd =
     (case priorityMove bd of Some k \<Rightarrow> int k | None \<Rightarrow> getRandomMove r bd)"
proof -
  have "getStrategicMove r bd =
     (case twoInLine MarkO bd of
        Some i \<Rightarrow> int i
      | None \<Rightarrow>
     (case twoInLine MarkX bd of
        Some i \<Rightarrow> int i
      | None \<Rightarrow>
     (if isEmpty bd 4 then 4
      else
     (case find (isEmpty bd) [0, 2, 6, 8] of
        Some i \<Rightarrow> int i
      | None \<Rightarrow>
     (case find (isEmpty bd) [1, 3, 5, 7] of
        Some i \<Rightarrow> int i
      | None \<Rightarrow> getRandomMove r bd)))))"
    unfolding getStrategicMove_def twoInLine_scanLines firstEmpty_find corners_def sides_def
      isEmpty_def [of bd 4] ..
  also have "\<dots> = (case priorityMove bd of Some k \<Rightarrow> int k | None \<Rightarrow> getRandomMove r bd)"
    unfolding priorityMove_def
    by (cases "twoInLine MarkO bd"; cases "twoInLine MarkX bd";
        cases "find (isEmpty bd) [0, 2, 6, 8]"; cases "find (isEmpty bd) [1, 3, 5, 7]";
        simp del: find.simps)
  finally show ?thesis .
qed

lemma priorityMove_None:
  assumes "priorityMove bd = None"
  shows "\<not> isEmpty bd 4 \<and> find (isEmpty bd) [0, 2, 6, 8] = None
         \<and> find (isEmpty bd) [1, 3, 5, 7] = None"
  using assms unfolding priorityMove_def
  by (cases "twoInLine MarkO bd"; cases "twoInLine MarkX bd";
      cases "find (isEmpty bd) [0, 2, 6, 8]"; cases "isEmpty bd 4";
      simp del: find.simps)

lemma priorityMove_exists:
  assumes len: "length bd = 9" and blank: "Some Blank \<in> set bd"
  shows "\<exists>k. priorityMove bd = Some k"
proof (rule ccontr)
  assume "\<not> ?thesis"
  then have none: "priorityMove bd = None" by simp
  note n = priorityMove_None [OF none]
  from n have c: "\<not> isEmpty bd 4" by blast
  from n have "\<And>j. j \<in> set [0, 2, 6, 8] \<Longrightarrow> \<not> isEmpty bd j"
    unfolding find_None_iff by blast
  then have co: "\<not> isEmpty bd 0" "\<not> isEmpty bd 2" "\<not> isEmpty bd 6" "\<not> isEmpty bd 8"
    by simp_all
  from n have "\<And>j. j \<in> set [1, 3, 5, 7] \<Longrightarrow> \<not> isEmpty bd j"
    unfolding find_None_iff by blast
  then have si: "\<not> isEmpty bd 1" "\<not> isEmpty bd 3" "\<not> isEmpty bd 5" "\<not> isEmpty bd 7"
    by simp_all
  from blank obtain i where i: "cellAt bd i = Some Blank" unfolding blank_cellAt by blast
  then have "i < 9" using len cellAt_Some_less [of bd i Blank] by simp
  then have "i = 0 \<or> i = 1 \<or> i = 2 \<or> i = 3 \<or> i = 4 \<or> i = 5 \<or> i = 6 \<or> i = 7 \<or> i = 8"
    by arith
  moreover have "isEmpty bd i" using i by (simp add: isEmpty_def)
  ultimately show False using c co si by blast
qed

lemmas line_defs = rows_def columns_def diagonals_def

lemma priorityMove_boardBlock: "priorityMove boardBlock = Some 2"
  by (simp add: priorityMove_def twoInLine_def line_defs boardBlock_def cellAt_def isEmpty_def)

lemma chooseMove_full:
  assumes "Some Blank \<notin> set (board g)"
  shows "chooseMove coin r g = - 1"
proof -
  have "priorityMove (board g) = None"
    using assms priorityMove_blank [of "board g"] blank_cellAt [of "board g"]
    by (cases "priorityMove (board g)") auto
  then have "getStrategicMove r (board g) = - 1"
    using assms by (simp add: getStrategicMove_priorityMove getRandomMove_full)
  then show ?thesis
    using assms
    by (cases "aiDifficulty g")
      (simp_all add: chooseMove_def getMediumMove_def getHardMove_def getRandomMove_full)
qed

lemma chooseMove_blank:
  assumes "chooseMove coin r g \<noteq> - 1"
  shows "0 \<le> chooseMove coin r g \<and> cellAt (board g) (nat (chooseMove coin r g)) = Some Blank"
proof -
  have blank: "Some Blank \<in> set (board g)"
    using assms chooseMove_full [of g coin r] by blast
  have rnd: "0 \<le> getRandomMove r (board g)
      \<and> cellAt (board g) (nat (getRandomMove r (board g))) = Some Blank"
    using blank by (rule getRandomMove_blank)
  have strat: "0 \<le> getStrategicMove r (board g)
      \<and> cellAt (board g) (nat (getStrategicMove r (board g))) = Some Blank"
  proof (cases "priorityMove (board g)")
    case None
    then show ?thesis using rnd by (simp add: getStrategicMove_priorityMove)
  next
    case (Some k)
    then show ?thesis
      using priorityMove_blank [of "board g" k] by (simp add: getStrategicMove_priorityMove)
  qed
  show ?thesis
    using rnd strat
    by (cases "aiDifficulty g") (simp_all add: chooseMove_def getMediumMove_def getHardMove_def)
qed

text \<open>
  C2. On a board of nine cells with an empty cell, the priority order gives a move, and
  the hard move is that move: complete a line of O, else block a line of X, else the
  centre, else the first empty corner, else the first empty edge.
\<close>

theorem hard_move_priority_order:
  assumes "length bd = 9" and "Some Blank \<in> set bd"
  shows "\<exists>k. priorityMove bd = Some k \<and> getHardMove r bd = int k"
proof -
  from assms obtain k where k: "priorityMove bd = Some k"
    using priorityMove_exists by blast
  then have "getHardMove r bd = int k"
    by (simp add: getHardMove_def getStrategicMove_priorityMove)
  with k show ?thesis by blast
qed

theorem hard_move_priority_order_witness:
  "length boardBlock = 9 \<and> Some Blank \<in> set boardBlock
   \<and> priorityMove boardBlock = Some 2 \<and> getHardMove (Abs_rnd 0) boardBlock = 2"
proof -
  have len: "length boardBlock = 9" and blank: "Some Blank \<in> set boardBlock"
    by (simp_all add: boardBlock_def)
  from hard_move_priority_order [OF len blank, of "Abs_rnd 0"]
  show ?thesis using len blank by (auto simp: priorityMove_boardBlock)
qed

text \<open>
  C9. On a board of nine cells the hard move does not depend on the random numbers: two
  evaluations give the same move, which is the move of the priority order, or \<open>-1\<close> when
  the priority order gives none.
\<close>

theorem hard_move_deterministic:
  assumes "length bd = 9"
  shows "getHardMove r bd = getHardMove r' bd
         \<and> getHardMove r bd = (case priorityMove bd of Some k \<Rightarrow> int k | None \<Rightarrow> - 1)"
proof (cases "Some Blank \<in> set bd")
  case True
  with assms obtain k where "priorityMove bd = Some k"
    using priorityMove_exists by blast
  then show ?thesis
    by (simp add: getHardMove_def getStrategicMove_priorityMove)
next
  case False
  then have "priorityMove bd = None"
    using priorityMove_blank [of bd] blank_cellAt [of bd] by (cases "priorityMove bd") auto
  with False show ?thesis
    by (simp add: getHardMove_def getStrategicMove_priorityMove getRandomMove_full)
qed

theorem hard_move_deterministic_witness:
  "length boardBlock = 9
   \<and> getHardMove (Abs_rnd 0) boardBlock = getHardMove (Abs_rnd (1 / 2)) boardBlock
   \<and> getHardMove (Abs_rnd 0) boardBlock = 2"
proof -
  have len: "length boardBlock = 9" by (simp add: boardBlock_def)
  from hard_move_deterministic [OF len, of "Abs_rnd 0" "Abs_rnd (1 / 2)"]
  show ?thesis using len by (simp add: priorityMove_boardBlock)
qed

text \<open>
  C10. On a board of nine cells with an empty cell, the strategic move is an index from
  0 to 8 of an empty cell, and so is the random move.
\<close>

theorem strategic_move_legal:
  assumes "length bd = 9" and "Some Blank \<in> set bd"
  shows "0 \<le> getStrategicMove r bd \<and> getStrategicMove r bd \<le> 8
         \<and> cellAt bd (nat (getStrategicMove r bd)) = Some Blank
         \<and> 0 \<le> getRandomMove r bd \<and> getRandomMove r bd \<le> 8
         \<and> cellAt bd (nat (getRandomMove r bd)) = Some Blank"
proof -
  from assms obtain k where k: "priorityMove bd = Some k"
    using priorityMove_exists by blast
  then have s: "getStrategicMove r bd = int k"
    by (simp add: getStrategicMove_priorityMove)
  from k have b: "cellAt bd k = Some Blank" by (rule priorityMove_blank)
  then have "k < 9" using assms(1) cellAt_Some_less [of bd k Blank] by simp
  with s b have 1: "0 \<le> getStrategicMove r bd \<and> getStrategicMove r bd \<le> 8
         \<and> cellAt bd (nat (getStrategicMove r bd)) = Some Blank" by simp
  from assms(2) have rb: "0 \<le> getRandomMove r bd"
    "cellAt bd (nat (getRandomMove r bd)) = Some Blank"
    using getRandomMove_blank by blast+
  then have "nat (getRandomMove r bd) < 9"
    using assms(1) cellAt_Some_less [of bd "nat (getRandomMove r bd)" Blank] by simp
  with rb have "getRandomMove r bd \<le> 8" by linarith
  with 1 rb show ?thesis by blast
qed

theorem strategic_move_legal_witness:
  "length boardBlock = 9 \<and> Some Blank \<in> set boardBlock
   \<and> 0 \<le> getStrategicMove (Abs_rnd 0) boardBlock
   \<and> getStrategicMove (Abs_rnd 0) boardBlock \<le> 8
   \<and> cellAt boardBlock (nat (getStrategicMove (Abs_rnd 0) boardBlock)) = Some Blank"
proof -
  have len: "length boardBlock = 9" and blank: "Some Blank \<in> set boardBlock"
    by (simp_all add: boardBlock_def)
  from strategic_move_legal [OF len blank, of "Abs_rnd 0"]
  show ?thesis using len blank by simp
qed

text \<open>
  C8. On a board with no empty cell the easy, the medium and the hard choice are all
  \<open>-1\<close>; \<open>makeAIMove\<close> then makes no move and the game is as it was.
\<close>

theorem full_board_no_move:
  assumes "Some Blank \<notin> set (board (app p))"
  shows "getRandomMove r (board (app p)) = - 1
         \<and> getMediumMove coin r (board (app p)) = - 1
         \<and> getHardMove r (board (app p)) = - 1
         \<and> makeAIMove coin r (app p) = None
         \<and> app (dispatch (AITimeout coin r) p) = app p"
proof -
  have pm: "priorityMove (board (app p)) = None"
    using assms priorityMove_blank [of "board (app p)"] blank_cellAt [of "board (app p)"]
    by (cases "priorityMove (board (app p))") auto
  have 1: "getRandomMove r (board (app p)) = - 1"
    using assms by (rule getRandomMove_full)
  have 2: "getStrategicMove r (board (app p)) = - 1"
    using pm 1 by (simp add: getStrategicMove_priorityMove)
  have 3: "makeAIMove coin r (app p) = None"
    using chooseMove_full [OF assms] by (simp add: makeAIMove_def)
  have 4: "app (dispatch (AITimeout coin r) p) = app p"
    using 3 by simp
  from 1 2 3 4 show ?thesis
    by (simp add: getMediumMove_def getHardMove_def)
qed

theorem full_board_no_move_witness:
  "Some Blank \<notin> set (board (app \<lparr>app = (newGame 0 0 0)\<lparr>board := boardFull\<rparr>, aiTimers = 1, movesApplied = 9\<rparr>))
   \<and> makeAIMove (Abs_rnd 0) (Abs_rnd 0) ((newGame 0 0 0)\<lparr>board := boardFull\<rparr>) = None
   \<and> getHardMove (Abs_rnd 0) boardFull = - 1"
proof -
  let ?p = "\<lparr>app = (newGame 0 0 0)\<lparr>board := boardFull\<rparr>, aiTimers = 1, movesApplied = 9\<rparr>"
  have full: "Some Blank \<notin> set (board (app ?p))" by (simp add: boardFull_def)
  from full_board_no_move [OF full, of "Abs_rnd 0" "Abs_rnd 0"]
  show ?thesis using full by simp
qed

section \<open>Moves\<close>

lemma updateScore_fields:
  "board (updateScore w g) = board g"
  "gameActive (updateScore w g) = gameActive g"
  "currentPlayer (updateScore w g) = currentPlayer g"
  "gameMode (updateScore w g) = gameMode g"
  "aiDifficulty (updateScore w g) = aiDifficulty g"
  by (induct w g rule: updateScore.induct) simp_all

lemma scores_endGame: "scores (endGame res g) = bump res (scores g)"
proof (cases res)
  case (Win m line)
  then show ?thesis by (cases m) simp_all
next
  case Draw
  then show ?thesis by simp
qed

lemma endGame_fields:
  "board (endGame res g) = board g"
  "gameActive (endGame res g) = False"
  "currentPlayer (endGame res g) = currentPlayer g"
  "gameMode (endGame res g) = gameMode g"
  "aiDifficulty (endGame res g) = aiDifficulty g"
  by (cases res; simp add: updateScore_fields)+

lemma board_makeMove: "board (makeMove i m g) = setCell (board g) i (Filled m)"
  by (simp add: makeMove_def Let_def endGame_fields scores_endGame split: option.split)

lemma gameActive_makeMove:
  "gameActive (makeMove i m g) =
     (gameActive g \<and> checkGameEnd (setCell (board g) i (Filled m)) = None)"
  by (simp add: makeMove_def Let_def endGame_fields scores_endGame split: option.split)

lemma scores_makeMove:
  "scores (makeMove i m g) =
     (case checkGameEnd (setCell (board g) i (Filled m)) of
        None \<Rightarrow> scores g
      | Some res \<Rightarrow> bump res (scores g))"
  by (simp add: makeMove_def Let_def endGame_fields scores_endGame split: option.split)

lemma currentPlayer_makeMove:
  "currentPlayer (makeMove i m g) =
     (if checkGameEnd (setCell (board g) i (Filled m)) = None
      then other (currentPlayer g) else currentPlayer g)"
  by (simp add: makeMove_def Let_def endGame_fields scores_endGame split: option.split)

lemma handleCellClick_Inr:
  assumes "handleCellClick index g = Inr (g', s)"
  shows "\<exists>i. index = Num i \<and> 0 \<le> i \<and> cellAt (board g) (nat i) = Some Blank
            \<and> gameActive g \<and> g' = makeMove (nat i) (currentPlayer g) g"
proof -
  from assms have a: "gameActive g" and b: "cellAtNum (board g) index = Some Blank"
    by (auto simp: handleCellClick_def split: if_splits)
  from b obtain i where i: "index = Num i" "0 \<le> i" "cellAt (board g) (nat i) = Some Blank"
    by (auto dest: cellAtNum_Some)
  with assms a b have "g' = makeMove (nat i) (currentPlayer g) g"
    by (simp add: handleCellClick_def Let_def)
  with a i show ?thesis by blast
qed

lemma makeAIMove_Some:
  assumes "makeAIMove coin r g = Some g'"
  shows "\<exists>k. cellAt (board g) k = Some Blank \<and> gameActive g \<and> g' = makeMove k MarkO g"
proof -
  from assms have a: "gameActive g" and m: "chooseMove coin r g \<noteq> - 1"
    and g': "g' = makeMove (nat (chooseMove coin r g)) MarkO g"
    by (auto simp: makeAIMove_def Let_def split: if_splits)
  from chooseMove_blank [OF m] a g' show ?thesis by blast
qed

lemma dispatch_CellClick:
  "dispatch (CellClick index) p = p \<or> moved p (dispatch (CellClick index) p)"
proof (cases "handleCellClick index (app p)")
  case (Inl e)
  then show ?thesis by simp
next
  case (Inr gs)
  obtain g s where gs: "gs = (g, s)" by (cases gs) auto
  from Inr gs obtain i where "cellAt (board (app p)) (nat i) = Some Blank"
    "gameActive (app p)" "g = makeMove (nat i) (currentPlayer (app p)) (app p)"
    using handleCellClick_Inr by blast
  then have "moved p (dispatch (CellClick index) p)"
    unfolding moved_def using Inr gs by auto
  then show ?thesis ..
qed

lemma dispatch_AITimeout:
  "(app (dispatch (AITimeout coin r) p) = app p
      \<and> movesApplied (dispatch (AITimeout coin r) p) = movesApplied p)
   \<or> moved p (dispatch (AITimeout coin r) p)"
proof (cases "aiTimers p = 0")
  case True
  then show ?thesis by simp
next
  case False
  show ?thesis
  proof (cases "makeAIMove coin r (app p)")
    case None
    with False show ?thesis by simp
  next
    case (Some g)
    then obtain k where "cellAt (board (app p)) k = Some Blank" "gameActive (app p)"
      "g = makeMove k MarkO (app p)"
      using makeAIMove_Some by blast
    then have "moved p (dispatch (AITimeout coin r) p)"
      unfolding moved_def using Some False by auto
    then show ?thesis ..
  qed
qed

lemmas eval_defs = newPage_def newGame_def toDouble_zero emptyBoard_cells handleCellClick_def
  makeMove_def
  Let_def checkGameEnd_def winningCombinations_def cellAt_def setCell_def resetGame_def
  setGameMode_def playAgain_def

lemma run_xWinsTrace:
  "run xWinsTrace (newPage sx so sd) =
     \<lparr>app = \<lparr>board = [Some (Filled MarkX), Some (Filled MarkX), Some (Filled MarkX),
                      Some (Filled MarkO), Some (Filled MarkO), Some Blank,
                      Some Blank, Some Blank, Some Blank],
             currentPlayer = MarkX, gameActive = False, gameMode = PvP,
             aiDifficulty = Medium,
             scores = \<lparr>scoreX = increment (toDouble sx), scoreO = toDouble so,
                       scoreDraw = toDouble sd\<rparr>\<rparr>,
      aiTimers = 0, movesApplied = 5\<rparr>"
  by (simp add: xWinsTrace_def eval_defs)

lemma run_threeMoves:
  "run threeMoves (newPage 0 0 0) =
     \<lparr>app = \<lparr>board = [Some (Filled MarkX), Some (Filled MarkX), Some Blank,
                      Some (Filled MarkO), Some Blank, Some Blank,
                      Some Blank, Some Blank, Some Blank],
             currentPlayer = MarkO, gameActive = True, gameMode = PvP,
             aiDifficulty = Medium,
             scores = \<lparr>scoreX = Whole 0, scoreO = Whole 0, scoreDraw = Whole 0\<rparr>\<rparr>,
      aiTimers = 0, movesApplied = 3\<rparr>"
  by (simp add: threeMoves_def eval_defs)

lemma run_resetRace:
  "run resetRace (newPage 0 0 0) =
     \<lparr>app = \<lparr>board = emptyBoard,
             currentPlayer = MarkX, gameActive = True, gameMode = AI,
             aiDifficulty = Hard,
             scores = \<lparr>scoreX = Whole 0, scoreO = Whole 0, scoreDraw = Whole 0\<rparr>\<rparr>,
      aiTimers = 1, movesApplied = 0\<rparr>"
  by (simp add: resetRace_def eval_defs)

lemma getHardMove_emptyBoard: "getHardMove r emptyBoard = 4"
  by (simp add: getHardMove_def getStrategicMove_def emptyBoard_cells cellAt_def
      winningCombinations_def)




text \<open>
  C6. \<open>makeAIMove\<close> looks only at \<open>gameActive\<close> when the timer runs it. After
  \<open>resetRace\<close> the board is empty, X is to move and one \<open>makeAIMove\<close> is still scheduled;
  when it runs it writes O on cell 4 of the new board and leaves O to move.
\<close>

theorem deferred_move_after_reset:
  "board (app (run resetRace (newPage 0 0 0))) = emptyBoard
   \<and> currentPlayer (app (run resetRace (newPage 0 0 0))) = MarkX
   \<and> aiTimers (run resetRace (newPage 0 0 0)) = 1
   \<and> board (app (dispatch (AITimeout (Abs_rnd 0) (Abs_rnd 0)) (run resetRace (newPage 0 0 0))))
       = [Some Blank, Some Blank, Some Blank,
          Some Blank, Some (Filled MarkO), Some Blank,
          Some Blank, Some Blank, Some Blank]
   \<and> currentPlayer
         (app (dispatch (AITimeout (Abs_rnd 0) (Abs_rnd 0)) (run resetRace (newPage 0 0 0))))
       = MarkO"
  unfolding run_resetRace
  by (simp add: makeAIMove_def chooseMove_def getHardMove_emptyBoard [unfolded emptyBoard_cells]
      makeMove_def Let_def
      checkGameEnd_def winningCombinations_def cellAt_def setCell_def emptyBoard_cells)

section \<open>Turn and number of moves\<close>

lemma other_MarkX: "(other m = MarkX) = (m \<noteq> MarkX)"
  by (cases m) simp_all

lemma turnInvariant_moved:
  assumes "turnInvariant p" and "moved p p'"
  shows "turnInvariant p'"
proof -
  from assms(2) obtain k m where k: "cellAt (board (app p)) k = Some Blank"
    and a: "gameActive (app p)" and g: "app p' = makeMove k m (app p)"
    and n: "movesApplied p' = movesApplied p + 1"
    unfolding moved_def by blast
  have "filledCells (board (app p')) = movesApplied p'"
    using assms(1) k n unfolding g board_makeMove turnInvariant_def
    by (simp add: filledCells_setCell)
  moreover have "gameActive (app p') \<longrightarrow> (currentPlayer (app p') = MarkX) = even (movesApplied p')"
    using assms(1) a n unfolding g turnInvariant_def
    by (auto simp: gameActive_makeMove currentPlayer_makeMove other_MarkX)
  ultimately show ?thesis unfolding turnInvariant_def by blast
qed

lemma turnInvariant_dispatch:
  assumes "turnInvariant p"
  shows "turnInvariant (dispatch e p)"
proof (cases e)
  case (CellClick index)
  then show ?thesis
    using dispatch_CellClick [of index p] assms turnInvariant_moved by auto
next
  case (AITimeout coin r)
  then show ?thesis
    using dispatch_AITimeout [of coin r p] assms turnInvariant_moved [of p]
    by (auto simp: turnInvariant_def)
next
  case (DifficultyChange d)
  then show ?thesis using assms by (cases d) (simp_all add: turnInvariant_def)
qed (use assms in \<open>simp_all add: turnInvariant_def resetGame_def playAgain_def
      setGameMode_def resetScores_def filledCells_emptyBoard\<close>)

lemma turnInvariant_run: "turnInvariant p \<Longrightarrow> turnInvariant (run es p)"
  by (induction es arbitrary: p) (simp_all add: turnInvariant_dispatch)

lemma turnInvariant_newPage: "turnInvariant (newPage sx so sd)"
  by (simp add: turnInvariant_def newPage_def newGame_def filledCells_emptyBoard)

lemma turn_flips:
  assumes "movesApplied (dispatch e p) = movesApplied p + 1"
    and "gameActive (app (dispatch e p))"
  shows "currentPlayer (app (dispatch e p)) = other (currentPlayer (app p))"
proof -
  have "moved p (dispatch e p)"
  proof (cases e)
    case (CellClick index)
    then show ?thesis using dispatch_CellClick [of index p] assms(1) by auto
  next
    case (AITimeout coin r)
    then show ?thesis using dispatch_AITimeout [of coin r p] assms(1) by auto
  next
    case (DifficultyChange d)
    then show ?thesis using assms(1) by (cases d) simp_all
  qed (use assms(1) in simp_all)
  then obtain k m where g: "app (dispatch e p) = makeMove k m (app p)"
    unfolding moved_def by blast
  from assms(2) show ?thesis
    unfolding g by (simp add: gameActive_makeMove currentPlayer_makeMove)
qed

text \<open>
  The count and the turn. After any sequence of events on a new page, the number of cells
  that hold a mark is the number of moves made since the last reset; while the game is
  active, X is to move exactly when that number is even and O exactly when it is odd; X
  is to move on a new game and after a reset; and an event that makes a move and leaves
  the game active passes the turn to the other player.
\<close>

theorem turn_follows_move_count:
  "filledCells (board (app (run es (newPage sx so sd)))) = movesApplied (run es (newPage sx so sd))
   \<and> (gameActive (app (run es (newPage sx so sd))) \<longrightarrow>
        (currentPlayer (app (run es (newPage sx so sd))) = MarkX
           \<longleftrightarrow> even (movesApplied (run es (newPage sx so sd))))
        \<and> (currentPlayer (app (run es (newPage sx so sd))) = MarkO
           \<longleftrightarrow> odd (movesApplied (run es (newPage sx so sd)))))
   \<and> currentPlayer (app (newPage sx so sd)) = MarkX
   \<and> currentPlayer (resetGame g) = MarkX
   \<and> (movesApplied (dispatch e (run es (newPage sx so sd)))
         = movesApplied (run es (newPage sx so sd)) + 1
       \<and> gameActive (app (dispatch e (run es (newPage sx so sd))))
       \<longrightarrow> currentPlayer (app (dispatch e (run es (newPage sx so sd))))
           = other (currentPlayer (app (run es (newPage sx so sd)))))"
proof -
  let ?p = "run es (newPage sx so sd)"
  have inv: "turnInvariant ?p"
    using turnInvariant_newPage by (rule turnInvariant_run)
  have 1: "filledCells (board (app ?p)) = movesApplied ?p"
    using inv by (simp add: turnInvariant_def)
  have 2: "gameActive (app ?p) \<longrightarrow>
        (currentPlayer (app ?p) = MarkX \<longleftrightarrow> even (movesApplied ?p))
        \<and> (currentPlayer (app ?p) = MarkO \<longleftrightarrow> odd (movesApplied ?p))"
    using inv by (cases "currentPlayer (app ?p)") (simp_all add: turnInvariant_def)
  have 3: "currentPlayer (app (newPage sx so sd)) = MarkX"
    by (simp add: newPage_def newGame_def)
  have 4: "currentPlayer (resetGame g) = MarkX"
    by (simp add: resetGame_def)
  have 5: "movesApplied (dispatch e ?p) = movesApplied ?p + 1
       \<and> gameActive (app (dispatch e ?p))
       \<longrightarrow> currentPlayer (app (dispatch e ?p)) = other (currentPlayer (app ?p))"
    using turn_flips [of e ?p] by blast
  from 1 2 3 4 5 show ?thesis by blast
qed

theorem turn_follows_move_count_witness:
  "gameActive (app (run threeMoves (newPage 0 0 0)))
   \<and> movesApplied (run threeMoves (newPage 0 0 0)) = 3
   \<and> filledCells (board (app (run threeMoves (newPage 0 0 0)))) = 3
   \<and> currentPlayer (app (run threeMoves (newPage 0 0 0))) = MarkO
   \<and> movesApplied (dispatch (CellClick (Num 4)) (run threeMoves (newPage 0 0 0))) = 3 + 1
   \<and> gameActive (app (dispatch (CellClick (Num 4)) (run threeMoves (newPage 0 0 0))))
   \<and> currentPlayer (app (dispatch (CellClick (Num 4)) (run threeMoves (newPage 0 0 0))))
       = other MarkO"
proof -
  let ?p = "run threeMoves (newPage 0 0 0)"
  let ?q = "dispatch (CellClick (Num 4)) ?p"
  have a: "gameActive (app ?p)" by (simp add: run_threeMoves)
  have n: "movesApplied ?p = 3" by (simp add: run_threeMoves)
  have q: "movesApplied ?q = 3 + 1 \<and> gameActive (app ?q)"
    unfolding run_threeMoves by (simp add: eval_defs)
  note t = turn_follows_move_count [of threeMoves 0 0 0 "app ?p" "CellClick (Num 4)"]
  from t n have 1: "filledCells (board (app ?p)) = 3" by simp
  from t a n have 2: "currentPlayer (app ?p) = MarkO" by simp
  from t n q have "currentPlayer (app ?q) = other (currentPlayer (app ?p))" by simp
  with 2 have 3: "currentPlayer (app ?q) = other MarkO" by simp
  from a n q 1 2 3 show ?thesis by blast
qed

text \<open>
  C4. The first move of a game is not always an X. After \<open>resetRace\<close> the game is new:
  no cell holds a mark, no move has been made and X is to move. The \<open>makeAIMove\<close> that was
  scheduled before the reset then makes move number one, and it writes O on cell 4.
\<close>

theorem first_move_after_reset:
  "movesApplied (run resetRace (newPage 0 0 0)) = 0
   \<and> filledCells (board (app (run resetRace (newPage 0 0 0)))) = 0
   \<and> gameActive (app (run resetRace (newPage 0 0 0)))
   \<and> currentPlayer (app (run resetRace (newPage 0 0 0))) = MarkX
   \<and> movesApplied (dispatch (AITimeout (Abs_rnd 0) (Abs_rnd 0))
        (run resetRace (newPage 0 0 0))) = 1
   \<and> filledCells (board (app (dispatch (AITimeout (Abs_rnd 0) (Abs_rnd 0))
        (run resetRace (newPage 0 0 0))))) = 1
   \<and> cellAt (board (app (dispatch (AITimeout (Abs_rnd 0) (Abs_rnd 0))
        (run resetRace (newPage 0 0 0))))) 4 = Some (Filled MarkO)"
  unfolding run_resetRace
  by (simp add: makeAIMove_def chooseMove_def getHardMove_emptyBoard [unfolded emptyBoard_cells]
      makeMove_def Let_def checkGameEnd_def winningCombinations_def cellAt_def setCell_def
      emptyBoard_cells filledCells_def)

section \<open>Scores\<close>

lemma frozen_dispatch:
  assumes "\<not> gameActive (app p)" and "isPlay e"
  shows "board (app (dispatch e p)) = board (app p)
         \<and> scores (app (dispatch e p)) = scores (app p)
         \<and> \<not> gameActive (app (dispatch e p))"
proof (cases e)
  case (CellClick index)
  then show ?thesis using assms(1) by (simp add: handleCellClick_def)
next
  case (AITimeout coin r)
  then show ?thesis using assms(1) by (simp add: makeAIMove_def)
next
  case (DifficultyChange d)
  then show ?thesis using assms(1) by (cases d) simp_all
qed (use assms(2) in simp_all)

lemma frozen_run:
  assumes "\<not> gameActive (app p)" and "list_all isPlay es"
  shows "board (app (run es p)) = board (app p)
         \<and> scores (app (run es p)) = scores (app p)
         \<and> \<not> gameActive (app (run es p))"
  using assms
proof (induction es arbitrary: p)
  case Nil
  then show ?case by simp
next
  case (Cons e es)
  from Cons.prems have e: "isPlay e" and es: "list_all isPlay es" by simp_all
  note f = frozen_dispatch [OF Cons.prems(1) e]
  from f have "\<not> gameActive (app (dispatch e p))" by blast
  from Cons.IH [OF this es] f show ?case by simp
qed

lemma scores_moved:
  assumes "moved p p'"
  shows "(gameActive (app p') \<longrightarrow> scores (app p') = scores (app p))
         \<and> (\<not> gameActive (app p') \<longrightarrow>
              (\<exists>res. checkGameEnd (board (app p')) = Some res
                   \<and> scores (app p') = bump res (scores (app p))))"
proof -
  from assms obtain k m where a: "gameActive (app p)" and g: "app p' = makeMove k m (app p)"
    unfolding moved_def by blast
  show ?thesis
    unfolding g using a
    by (cases "checkGameEnd (setCell (board (app p)) k (Filled m))")
      (simp_all add: gameActive_makeMove scores_makeMove board_makeMove)
qed

lemma scores_dispatch:
  assumes "gameActive (app p)" and "isPlay e"
  shows "(gameActive (app (dispatch e p)) \<longrightarrow> scores (app (dispatch e p)) = scores (app p))
         \<and> (\<not> gameActive (app (dispatch e p)) \<longrightarrow>
              (\<exists>res. checkGameEnd (board (app (dispatch e p))) = Some res
                   \<and> scores (app (dispatch e p)) = bump res (scores (app p))))"
proof (cases e)
  case (CellClick index)
  then show ?thesis
    using dispatch_CellClick [of index p] scores_moved [of p "dispatch e p"] assms(1) by auto
next
  case (AITimeout coin r)
  then show ?thesis
    using dispatch_AITimeout [of coin r p] scores_moved [of p "dispatch e p"] assms(1) by auto
next
  case (DifficultyChange d)
  then show ?thesis using assms(1) by (cases d) simp_all
qed (use assms(2) in simp_all)

lemma scores_run:
  assumes "gameActive (app p)" and "list_all isPlay es"
  shows "(gameActive (app (run es p)) \<longrightarrow> scores (app (run es p)) = scores (app p))
         \<and> (\<not> gameActive (app (run es p)) \<longrightarrow>
              (\<exists>res. checkGameEnd (board (app (run es p))) = Some res
                   \<and> scores (app (run es p)) = bump res (scores (app p))))"
  using assms
proof (induction es arbitrary: p)
  case Nil
  then show ?case by simp
next
  case (Cons e es)
  from Cons.prems have e: "isPlay e" and es: "list_all isPlay es" by simp_all
  let ?q = "dispatch e p"
  note step = scores_dispatch [OF Cons.prems(1) e]
  show ?case
  proof (cases "gameActive (app ?q)")
    case True
    from Cons.IH [OF True es] step True show ?thesis by simp
  next
    case False
    from frozen_run [OF False es] step False show ?thesis by simp
  qed
qed

text \<open>
  C5. Over the events of one game, from an active game and with no reset: while the game
  is active the three counters are as at the start; once it is over, the board has a
  result, the counter of that result has received one \<open>++\<close> and no other counter has
  changed; and when that counter was a whole number of magnitude below \<open>2^53\<close>, it is
  now one more than at the start.
\<close>

theorem score_once_per_game:
  assumes "gameActive (app p)" and "list_all isPlay es"
  shows "(gameActive (app (run es p)) \<longrightarrow> scores (app (run es p)) = scores (app p))
         \<and> (\<not> gameActive (app (run es p)) \<longrightarrow>
              (\<exists>res. checkGameEnd (board (app (run es p))) = Some res
                   \<and> scores (app (run es p)) = bump res (scores (app p))
                   \<and> (exact (outcomeCounter res (scores (app p)))
                        \<longrightarrow> scores (app (run es p)) = tally res (scores (app p)))))"
proof (intro conjI impI)
  assume "gameActive (app (run es p))"
  with scores_run [OF assms] show "scores (app (run es p)) = scores (app p)" by blast
next
  assume "\<not> gameActive (app (run es p))"
  with scores_run [OF assms] obtain res
    where res: "checkGameEnd (board (app (run es p))) = Some res"
      and sc: "scores (app (run es p)) = bump res (scores (app p))"
    by blast
  have "exact (outcomeCounter res (scores (app p)))
      \<longrightarrow> scores (app (run es p)) = tally res (scores (app p))"
    using sc by (simp add: bump_exact)
  with res sc show "\<exists>res. checkGameEnd (board (app (run es p))) = Some res
      \<and> scores (app (run es p)) = bump res (scores (app p))
      \<and> (exact (outcomeCounter res (scores (app p)))
           \<longrightarrow> scores (app (run es p)) = tally res (scores (app p)))"
    by blast
qed

theorem score_once_per_game_witness:
  "gameActive (app (newPage 0 0 0)) \<and> list_all isPlay xWinsTrace \<and> list_all isPlay threeMoves
   \<and> \<not> gameActive (app (run xWinsTrace (newPage 0 0 0)))
   \<and> checkGameEnd (board (app (run xWinsTrace (newPage 0 0 0)))) = Some (Win MarkX (0, 1, 2))
   \<and> exact (outcomeCounter (Win MarkX (0, 1, 2)) (scores (app (newPage 0 0 0))))
   \<and> scores (app (run xWinsTrace (newPage 0 0 0)))
       = tally (Win MarkX (0, 1, 2)) (scores (app (newPage 0 0 0)))
   \<and> scores (app (run xWinsTrace (newPage 0 0 0)))
       = \<lparr>scoreX = Whole 1, scoreO = Whole 0, scoreDraw = Whole 0\<rparr>
   \<and> gameActive (app (run threeMoves (newPage 0 0 0)))
   \<and> scores (app (run threeMoves (newPage 0 0 0))) = scores (app (newPage 0 0 0))"
proof -
  have a: "gameActive (app (newPage 0 0 0))"
    by (simp add: newPage_def newGame_def)
  have p1: "list_all isPlay xWinsTrace" by (simp add: xWinsTrace_def)
  have p2: "list_all isPlay threeMoves" by (simp add: threeMoves_def)
  have over: "\<not> gameActive (app (run xWinsTrace (newPage 0 0 0)))"
    by (simp add: run_xWinsTrace)
  have res: "checkGameEnd (board (app (run xWinsTrace (newPage 0 0 0))))
      = Some (Win MarkX (0, 1, 2))"
    by (simp add: run_xWinsTrace checkGameEnd_def winningCombinations_def cellAt_def)
  have ex: "exact (outcomeCounter (Win MarkX (0, 1, 2)) (scores (app (newPage 0 0 0))))"
    by (simp add: newPage_def newGame_def toDouble_zero)
  have on: "gameActive (app (run threeMoves (newPage 0 0 0)))"
    by (simp add: run_threeMoves)
  from score_once_per_game [OF a p1] over res ex
  have 1: "scores (app (run xWinsTrace (newPage 0 0 0)))
       = tally (Win MarkX (0, 1, 2)) (scores (app (newPage 0 0 0)))"
    by auto
  then have 2: "scores (app (run xWinsTrace (newPage 0 0 0)))
       = \<lparr>scoreX = Whole 1, scoreO = Whole 0, scoreDraw = Whole 0\<rparr>"
    by (simp add: newPage_def newGame_def toDouble_zero)
  from score_once_per_game [OF a p2] on
  have 3: "scores (app (run threeMoves (newPage 0 0 0))) = scores (app (newPage 0 0 0))"
    by blast
  from a p1 p2 over res ex on 1 2 3 show ?thesis by blast
qed

text \<open>
  At \<open>2^53\<close> the \<open>++\<close> adds nothing. With 9007199254740992 stored for X, the counter of X
  starts as \<open>2^53\<close>; X then wins the game of \<open>xWinsTrace\<close>, and the three counters are
  what they were at the start.
\<close>

theorem score_unchanged_at_limit:
  "gameActive (app (newPage 9007199254740992 0 0))
   \<and> scoreX (scores (app (newPage 9007199254740992 0 0))) = Whole 9007199254740992
   \<and> \<not> gameActive (app (run xWinsTrace (newPage 9007199254740992 0 0)))
   \<and> checkGameEnd (board (app (run xWinsTrace (newPage 9007199254740992 0 0))))
       = Some (Win MarkX (0, 1, 2))
   \<and> scores (app (run xWinsTrace (newPage 9007199254740992 0 0)))
       = scores (app (newPage 9007199254740992 0 0))"
  unfolding run_xWinsTrace
  by (simp add: newPage_def newGame_def toDouble_limit toDouble_above_limit
      toDouble_zero checkGameEnd_def winningCombinations_def cellAt_def)

end
